theory Spec2Isabelle
  imports Main "HOL-Library.AList"
begin

section \<open>The scroll helper \<open>scan\<close> of \<open>elasticsearch_async/helpers.py\<close>\<close>

text \<open>
  The module consists of one asynchronous generator, \<open>scan\<close>. It talks to a client
  object through three calls (\<open>search\<close>, \<open>scroll\<close>, \<open>clear_scroll\<close>) and hands hit
  documents to a consumer. The embedding makes both sides explicit:
  \<^item> the client is the script of its answers: the result of the awaited \<open>search\<close>, the
    results of the awaited \<open>scroll\<close> calls in arrival order, and what the (not awaited)
    \<open>clear_scroll\<close> call does;
  \<^item> the consumer either drains the generator or closes it while it is suspended at a
    \<open>yield\<close>;
  \<^item> everything the generator does is recorded, in order, in a trace of events, next to
    the way the session ended.
\<close>

subsection \<open>Values, dictionaries and the object store\<close>

text \<open>
  A query is a Python \<open>dict\<close> with string keys. Its entries are kept in insertion order
  as an association list; nested containers are references into the store, so that a
  shallow copy shares them. The store is a list of dictionaries indexed by address;
  allocation appends.
\<close>

datatype pyval = PNone | PBool bool | PInt int | PStr string | PRef nat

type_synonym dict = "(string \<times> pyval) list"

type_synonym heap = "dict list"

definition alloc :: "heap \<Rightarrow> dict \<Rightarrow> heap \<times> nat" where
  "alloc h d = (h @ [d], length h)"

text \<open>\<open>query.copy()\<close>: a new dictionary object with the same entries.\<close>

definition dict_copy :: "heap \<Rightarrow> nat \<Rightarrow> heap \<times> nat" where
  "dict_copy h a = alloc h (h ! a)"

text \<open>
  Truth of \<open>query\<close> in \<open>query.copy() if query else {}\<close>: \<open>None\<close> and the empty
  dictionary are false.
\<close>

definition query_truthy :: "heap \<Rightarrow> nat option \<Rightarrow> bool" where
  "query_truthy h query = (case query of None \<Rightarrow> False | Some a \<Rightarrow> h ! a \<noteq> [])"

text \<open>\<open>query["sort"] = "_doc"\<close> on the dictionary at address \<open>a\<close>.\<close>

definition set_sort :: "heap \<Rightarrow> nat \<Rightarrow> heap" where
  "set_sort h a = h[a := AList.update ''sort'' (PStr ''_doc'') (h ! a)]"

text \<open>
  Lines 45 to 47. The result is the store and the reference bound to \<open>query\<close>
  afterwards (\<open>None\<close> is Python's \<open>None\<close>).
\<close>

definition prepare_query :: "heap \<Rightarrow> nat option \<Rightarrow> bool \<Rightarrow> heap \<times> nat option" where
  "prepare_query h query preserve_order =
     (if \<not> preserve_order then
        (let (h1, q) = (if query_truthy h query then dict_copy h (the query) else alloc h [])
         in (set_sort h1 q, Some q))
      else (h, query))"

subsection \<open>Options, responses, errors\<close>

text \<open>
  The keyword parameters of \<open>scan\<close>. The field for \<open>size\<close> is called \<open>size_opt\<close>; the
  request timeout is passed through unread.
\<close>

record config =
  scroll :: string
  raise_on_error :: bool
  preserve_order :: bool
  size_opt :: int
  request_timeout :: "int option"
  clear_scroll :: bool
  kwargs :: dict

definition default_config :: config where
  "default_config =
     \<lparr>scroll = ''5m'', raise_on_error = True, preserve_order = False, size_opt = 1000,
      request_timeout = None, clear_scroll = True, kwargs = []\<rparr>"

text \<open>
  What \<open>scan\<close> reads of a response: \<open>resp.get('_scroll_id')\<close>, \<open>resp['hits']['hits']\<close>,
  \<open>resp['_shards']['failed']\<close> and \<open>resp['_shards']['total']\<close>. Hits are opaque.
\<close>

record 'h response =
  scroll_id_of :: "string option"
  hits :: "'h list"
  shards_failed :: int
  shards_total :: int

text \<open>
  \<open>ScanError\<close> is raised with the scroll identifier and a message formatted from the two
  shard counts; the message is represented by the counts. \<open>ClientError\<close> stands for any
  exception coming out of the client (a transport error with its status, a cancellation).
\<close>

datatype error = NameError string | ScanError string int int | ClientError nat

text \<open>
  The names bound at module level by \<open>helpers.py\<close>: the import, the assignment of line 3
  and the function itself. A global name that is neither in this list nor a builtin
  raises \<open>NameError\<close> when it is evaluated.
\<close>

definition module_globals :: "string list" where
  "module_globals = [''asyncio'', ''ensure_future'', ''scan'']"

subsection \<open>Client, consumer, events\<close>

text \<open>
  \<open>client.clear_scroll(...)\<close> is called without \<open>await\<close>: the call either raises at once,
  or returns an awaitable whose result (an error or nothing) the generator never reads.
\<close>

datatype clear_reply = RaisesNow error | Awaitable "error + unit"

record 'h client =
  search_reply :: "error + 'h response"
  scroll_replies :: "(error + 'h response) list"
  clear_scroll_reply :: clear_reply

text \<open>
  \<open>Drain\<close> consumes until the generator ends. \<open>CloseAt k\<close> closes the generator while it
  is suspended at its yield number \<open>k\<close> (counted from 0), that is after \<open>k + 1\<close> hits:
  \<open>GeneratorExit\<close> is raised at that \<open>yield\<close>.
\<close>

datatype consumer = Drain | CloseAt nat

datatype 'h event =
    Search "dict option" string int "int option" dict
  | Scroll string string "int option"
  | Yield 'h
  | Warning int int
  | ClearScroll "string list" "nat list"

text \<open>
  \<open>Pending\<close>: the generator awaits a scroll response that the script does not contain.
\<close>

datatype outcome = Done | Raised error | Closed | Pending

record 'h result =
  heap_after :: heap
  trace :: "'h event list"
  final_scroll_id :: "string option"
  outcome :: outcome

subsection \<open>The generator\<close>

text \<open>
  \<open>for hit in resp['hits']['hits']: yield hit\<close>. The second component is \<open>None\<close> when the
  consumer closed the generator at a yield, and the consumer's remaining state otherwise.
\<close>

fun yield_hits :: "'h list \<Rightarrow> consumer \<Rightarrow> 'h event list \<times> consumer option" where
  "yield_hits [] c = ([], Some c)"
| "yield_hits (x # xs) Drain =
     (let (evs, r) = yield_hits xs Drain in (Yield x # evs, r))"
| "yield_hits (x # xs) (CloseAt 0) = ([Yield x], None)"
| "yield_hits (x # xs) (CloseAt (Suc k)) =
     (let (evs, r) = yield_hits xs (CloseAt k) in (Yield x # evs, r))"

text \<open>
  Lines 69 to 79, under the global names \<open>G\<close>: the events, and the exception raised if
  any. \<open>logger\<close> is looked up first; \<open>ScanError\<close> only when \<open>raise_on_error\<close> holds.
\<close>

definition check_shards ::
  "string list \<Rightarrow> config \<Rightarrow> string \<Rightarrow> 'h response \<Rightarrow> 'h event list \<times> error option" where
  "check_shards G cfg scroll_id resp =
     (if shards_failed resp \<noteq> 0 then
        (if ''logger'' \<notin> set G then ([], Some (NameError ''logger''))
         else if raise_on_error cfg then
           (if ''ScanError'' \<notin> set G then
              ([Warning (shards_failed resp) (shards_total resp)], Some (NameError ''ScanError''))
            else
              ([Warning (shards_failed resp) (shards_total resp)],
               Some (ScanError scroll_id (shards_failed resp) (shards_total resp))))
         else ([Warning (shards_failed resp) (shards_total resp)], None))
      else ([], None))"

text \<open>
  Lines 85 to 87, entered with the current content of \<open>scroll_id\<close> and the way the
  \<open>try\<close> block was left. \<open>if scroll_id and clear_scroll\<close>: \<open>None\<close> and the empty string
  are false. An exception raised by the call replaces the pending outcome.
\<close>

fun scan_finally ::
  "config \<Rightarrow> clear_reply \<Rightarrow> string option \<Rightarrow> outcome \<Rightarrow> 'h event list \<times> string option \<times> outcome" where
  "scan_finally cfg cr None out = ([], None, out)"
| "scan_finally cfg cr (Some s) out =
     (if s \<noteq> [] \<and> clear_scroll cfg then
        ([ClearScroll [s] [404]], Some s,
         (case cr of RaisesNow e \<Rightarrow> Raised e | Awaitable x \<Rightarrow> out))
      else ([], Some s, out))"

definition emit ::
  "'h event list \<Rightarrow> 'h event list \<times> string option \<times> outcome \<Rightarrow> 'h event list \<times> string option \<times> outcome" where
  "emit evs r = (case r of (t, s, out) \<Rightarrow> (evs @ t, s, out))"

text \<open>
  Lines 60 to 63: on the first run the response of the initial search is used, later the
  next scroll response is awaited.
\<close>

datatype 'h fetched =
    Waiting "'h event list"
  | Failed "'h event list" error
  | Got "'h event list" "'h response" "(error + 'h response) list"

definition next_response ::
  "config \<Rightarrow> bool \<Rightarrow> string \<Rightarrow> 'h response \<Rightarrow> (error + 'h response) list \<Rightarrow> 'h fetched" where
  "next_response cfg first_run scroll_id resp replies =
     (if first_run then Got [] resp replies
      else
        (case replies of
           [] \<Rightarrow> Waiting [Scroll scroll_id (scroll cfg) (request_timeout cfg)]
         | Inl e # rest \<Rightarrow> Failed [Scroll scroll_id (scroll cfg) (request_timeout cfg)] e
         | Inr resp' # rest \<Rightarrow> Got [Scroll scroll_id (scroll cfg) (request_timeout cfg)] resp' rest))"

text \<open>
  The \<open>try\<close> statement of lines 56 to 87: the \<open>while True\<close> loop, every way of leaving
  it going through \<open>scan_finally\<close>.
\<close>

function scan_loop ::
  "string list \<Rightarrow> config \<Rightarrow> clear_reply \<Rightarrow> bool \<Rightarrow> string \<Rightarrow> 'h response \<Rightarrow>
   (error + 'h response) list \<Rightarrow> consumer \<Rightarrow> 'h event list \<times> string option \<times> outcome" where
  "scan_loop G cfg cr first_run scroll_id resp replies c =
     (case next_response cfg first_run scroll_id resp replies of
        Waiting evs \<Rightarrow> (evs, Some scroll_id, Pending)
      | Failed evs e \<Rightarrow> emit evs (scan_finally cfg cr (Some scroll_id) (Raised e))
      | Got evs resp' rest \<Rightarrow>
          (case yield_hits (hits resp') c of
             (ys, None) \<Rightarrow> emit (evs @ ys) (scan_finally cfg cr (Some scroll_id) Closed)
           | (ys, Some c') \<Rightarrow>
               (case check_shards G cfg scroll_id resp' of
                  (ws, Some e) \<Rightarrow>
                    emit (evs @ ys @ ws) (scan_finally cfg cr (Some scroll_id) (Raised e))
                | (ws, None) \<Rightarrow>
                    (case scroll_id_of resp' of
                       None \<Rightarrow> emit (evs @ ys @ ws) (scan_finally cfg cr None Done)
                     | Some s \<Rightarrow>
                         if hits resp' = [] then
                           emit (evs @ ys @ ws) (scan_finally cfg cr (Some s) Done)
                         else
                           emit (evs @ ys @ ws) (scan_loop G cfg cr False s resp' rest c')))))"
  by pat_completeness auto
termination
  by (relation "measure (\<lambda>(G, cfg, cr, first_run, scroll_id, resp, replies, c).
        2 * length replies + (if first_run then 1 else 0))")
     (auto simp: next_response_def split: if_splits list.splits sum.splits)

text \<open>
  The call of lines 49 and 50. The event keeps the entries of the body dictionary as they
  are in the store \<open>h\<close> when the call is made.
\<close>

definition search_call :: "heap \<Rightarrow> nat option \<Rightarrow> config \<Rightarrow> 'h event" where
  "search_call h body cfg =
     Search (map_option (\<lambda>a. h ! a) body) (scroll cfg) (size_opt cfg) (request_timeout cfg)
       (kwargs cfg)"

text \<open>
  \<open>scan\<close> under the global names \<open>G\<close>, started on the store \<open>h\<close> with the caller's
  reference \<open>query\<close> (\<open>None\<close> when no query is supplied).
\<close>

definition scan_in ::
  "string list \<Rightarrow> 'h client \<Rightarrow> heap \<Rightarrow> nat option \<Rightarrow> config \<Rightarrow> consumer \<Rightarrow> 'h result" where
  "scan_in G client h query cfg c =
     (let (h1, body) = prepare_query h query (preserve_order cfg);
          call = search_call h1 body cfg
      in case search_reply client of
           Inl e \<Rightarrow>
             \<lparr>heap_after = h1, trace = [call], final_scroll_id = None, outcome = Raised e\<rparr>
         | Inr resp \<Rightarrow>
             (case scroll_id_of resp of
                None \<Rightarrow>
                  \<lparr>heap_after = h1, trace = [call], final_scroll_id = None, outcome = Done\<rparr>
              | Some s \<Rightarrow>
                  (case scan_loop G cfg (clear_scroll_reply client) True s resp
                          (scroll_replies client) c of
                     (evs, fin, out) \<Rightarrow>
                       \<lparr>heap_after = h1, trace = call # evs, final_scroll_id = fin,
                        outcome = out\<rparr>)))"

text \<open>The function as the module defines it.\<close>

definition scan :: "'h client \<Rightarrow> heap \<Rightarrow> nat option \<Rightarrow> config \<Rightarrow> consumer \<Rightarrow> 'h result" where
  "scan = scan_in module_globals"

subsection \<open>Reading a trace\<close>

fun yielded :: "'h event list \<Rightarrow> 'h list" where
  "yielded [] = []"
| "yielded (Yield x # evs) = x # yielded evs"
| "yielded (e # evs) = yielded evs"

fun scroll_calls :: "'h event list \<Rightarrow> string list" where
  "scroll_calls [] = []"
| "scroll_calls (Scroll s k t # evs) = s # scroll_calls evs"
| "scroll_calls (e # evs) = scroll_calls evs"

fun clear_calls :: "'h event list \<Rightarrow> (string list \<times> nat list) list" where
  "clear_calls [] = []"
| "clear_calls (ClearScroll ids ign # evs) = (ids, ign) # clear_calls evs"
| "clear_calls (e # evs) = clear_calls evs"

fun warnings :: "'h event list \<Rightarrow> (int \<times> int) list" where
  "warnings [] = []"
| "warnings (Warning f t # evs) = (f, t) # warnings evs"
| "warnings (e # evs) = warnings evs"

text \<open>The responses at the head of a script, up to its first error.\<close>

fun leading_responses :: "(error + 'h response) list \<Rightarrow> 'h response list" where
  "leading_responses [] = []"
| "leading_responses (Inl e # rs) = []"
| "leading_responses (Inr r # rs) = r # leading_responses rs"

text \<open>
  The clear-scroll calls that lines 86 and 87 make for a given content of \<open>scroll_id\<close>:
  one call naming it when it is a non-empty string and \<open>clear_scroll\<close> is set, none
  otherwise.
\<close>

fun cleanup_calls :: "config \<Rightarrow> string option \<Rightarrow> (string list \<times> nat list) list" where
  "cleanup_calls cfg None = []"
| "cleanup_calls cfg (Some s) = (if s \<noteq> [] \<and> clear_scroll cfg then [([s], [404])] else [])"

subsection \<open>Building concrete sessions\<close>

text \<open>
  A response with five shards, and a client that answers the search and every scroll call
  with a response and whose \<open>clear_scroll\<close> returns an awaitable.
\<close>

definition page :: "string option \<Rightarrow> 'h list \<Rightarrow> int \<Rightarrow> 'h response" where
  "page sid hs failed = \<lparr>scroll_id_of = sid, hits = hs, shards_failed = failed, shards_total = 5\<rparr>"

definition session :: "'h response \<Rightarrow> 'h response list \<Rightarrow> 'h client" where
  "session first rest =
     \<lparr>search_reply = Inr first, scroll_replies = map Inr rest,
      clear_scroll_reply = Awaitable (Inr ())\<rparr>"

section \<open>Basic facts\<close>

declare scan_loop.simps [simp del]

lemma yielded_append: "yielded (xs @ ys) = yielded xs @ yielded ys"
  by (induction xs rule: yielded.induct) simp_all

lemma scroll_calls_append: "scroll_calls (xs @ ys) = scroll_calls xs @ scroll_calls ys"
  by (induction xs rule: scroll_calls.induct) simp_all

lemma clear_calls_append: "clear_calls (xs @ ys) = clear_calls xs @ clear_calls ys"
  by (induction xs rule: clear_calls.induct) simp_all

lemma warnings_append: "warnings (xs @ ys) = warnings xs @ warnings ys"
  by (induction xs rule: warnings.induct) simp_all

lemma yield_hits_Drain: "yield_hits xs Drain = (map Yield xs, Some Drain)"
  by (induction xs) simp_all

lemma yielded_map_Yield: "yielded (map Yield xs) = xs"
  by (induction xs) simp_all

lemma yield_hits_events:
  "yield_hits xs c = (evs, r) \<Longrightarrow> scroll_calls evs = [] \<and> clear_calls evs = [] \<and> warnings evs = []"
  by (induction xs c arbitrary: evs r rule: yield_hits.induct) (auto split: prod.splits)

lemma check_shards_events:
  "check_shards G cfg s resp = (ws, e) \<Longrightarrow> scroll_calls ws = [] \<and> clear_calls ws = [] \<and> yielded ws = []"
  by (auto simp: check_shards_def split: if_splits)

lemma next_response_events:
  "next_response cfg fr s resp replies = Got evs resp' rest \<Longrightarrow> clear_calls evs = [] \<and> yielded evs = [] \<and> warnings evs = []"
  "next_response cfg fr s resp replies = Failed evs e \<Longrightarrow> clear_calls evs = [] \<and> yielded evs = [] \<and> warnings evs = []"
  "next_response cfg fr s resp replies = Waiting evs \<Longrightarrow> clear_calls evs = [] \<and> yielded evs = [] \<and> warnings evs = []"
  by (auto simp: next_response_def split: if_splits list.splits sum.splits)

lemma scan_finally_clear:
  "clear_calls (fst (scan_finally cfg cr s out)) = cleanup_calls cfg s"
  "fst (snd (scan_finally cfg cr s out)) = s"
  by (cases s, simp, simp) (cases s, simp, simp)

lemma emit_proj:
  "fst (emit evs r) = evs @ fst r" "fst (snd (emit evs r)) = fst (snd r)"
  "snd (snd (emit evs r)) = snd (snd r)"
  by (simp_all add: emit_def split: prod.splits)

lemma yield_hits_quiet:
  "scroll_calls (fst (yield_hits xs c)) = [] \<and> clear_calls (fst (yield_hits xs c)) = [] \<and>
   warnings (fst (yield_hits xs c)) = []"
  using yield_hits_events [of xs c "fst (yield_hits xs c)" "snd (yield_hits xs c)"] by simp

lemma check_shards_quiet:
  "scroll_calls (fst (check_shards G cfg s resp)) = []"
  "clear_calls (fst (check_shards G cfg s resp)) = []"
  "yielded (fst (check_shards G cfg s resp)) = []"
  by (simp_all add: check_shards_def)



lemma scan_loop_cases [case_names Waiting Failed Closed Error NoId Empty Continue]:
  assumes "\<And>fr s resp replies c evs.
      next_response cfg fr s resp replies = Waiting evs \<Longrightarrow>
      P fr s resp replies c (evs, Some s, Pending)"
    and "\<And>fr s resp replies c evs e.
      next_response cfg fr s resp replies = Failed evs e \<Longrightarrow>
      P fr s resp replies c (emit evs (scan_finally cfg cr (Some s) (Raised e)))"
    and "\<And>fr s resp replies c evs resp' rest ys.
      next_response cfg fr s resp replies = Got evs resp' rest \<Longrightarrow>
      yield_hits (hits resp') c = (ys, None) \<Longrightarrow>
      P fr s resp replies c (emit (evs @ ys) (scan_finally cfg cr (Some s) Closed))"
    and "\<And>fr s resp replies c evs resp' rest ys c' ws e.
      next_response cfg fr s resp replies = Got evs resp' rest \<Longrightarrow>
      yield_hits (hits resp') c = (ys, Some c') \<Longrightarrow>
      check_shards G cfg s resp' = (ws, Some e) \<Longrightarrow>
      P fr s resp replies c (emit (evs @ ys @ ws) (scan_finally cfg cr (Some s) (Raised e)))"
    and "\<And>fr s resp replies c evs resp' rest ys c' ws.
      next_response cfg fr s resp replies = Got evs resp' rest \<Longrightarrow>
      yield_hits (hits resp') c = (ys, Some c') \<Longrightarrow>
      check_shards G cfg s resp' = (ws, None) \<Longrightarrow>
      scroll_id_of resp' = None \<Longrightarrow>
      P fr s resp replies c (emit (evs @ ys @ ws) (scan_finally cfg cr None Done))"
    and "\<And>fr s resp replies c evs resp' rest ys c' ws s'.
      next_response cfg fr s resp replies = Got evs resp' rest \<Longrightarrow>
      yield_hits (hits resp') c = (ys, Some c') \<Longrightarrow>
      check_shards G cfg s resp' = (ws, None) \<Longrightarrow>
      scroll_id_of resp' = Some s' \<Longrightarrow> hits resp' = [] \<Longrightarrow>
      P fr s resp replies c (emit (evs @ ys @ ws) (scan_finally cfg cr (Some s') Done))"
    and "\<And>fr s resp replies c evs resp' rest ys c' ws s'.
      next_response cfg fr s resp replies = Got evs resp' rest \<Longrightarrow>
      yield_hits (hits resp') c = (ys, Some c') \<Longrightarrow>
      check_shards G cfg s resp' = (ws, None) \<Longrightarrow>
      scroll_id_of resp' = Some s' \<Longrightarrow> hits resp' \<noteq> [] \<Longrightarrow>
      P False s' resp' rest c' (scan_loop G cfg cr False s' resp' rest c') \<Longrightarrow>
      P fr s resp replies c (emit (evs @ ys @ ws) (scan_loop G cfg cr False s' resp' rest c'))"
  shows "P fr s resp replies c (scan_loop G cfg cr fr s resp replies c)"
  using assms
proof (induction G cfg cr fr s resp replies c rule: scan_loop.induct)
  case (1 G cfg cr first_run scroll_id resp replies c)
  note rules = "1.prems"
  show ?case
  proof (cases "next_response cfg first_run scroll_id resp replies")
    case (Waiting evs)
    then show ?thesis using rules(1)[OF Waiting] by (simp add: scan_loop.simps)
  next
    case (Failed evs e)
    then show ?thesis using rules(2)[OF Failed] by (simp add: scan_loop.simps)
  next
    case (Got evs resp' rest)
    obtain ys r where yh: "yield_hits (hits resp') c = (ys, r)"
      by (cases "yield_hits (hits resp') c")
    obtain ws e where cs: "check_shards G cfg scroll_id resp' = (ws, e)"
      by (cases "check_shards G cfg scroll_id resp'")
    show ?thesis
    proof (cases r)
      case None
      then show ?thesis using rules(3)[OF Got] Got yh by (simp add: scan_loop.simps)
    next
      case (Some c')
      note r = Some
      show ?thesis
      proof (cases e)
        case (Some err)
        then show ?thesis using rules(4)[OF Got] Got yh cs r by (simp add: scan_loop.simps)
      next
        case None
        note e = None
        show ?thesis
        proof (cases "scroll_id_of resp'")
          case None
          then show ?thesis using rules(5)[OF Got] Got yh cs r e by (simp add: scan_loop.simps)
        next
          case (Some s')
          show ?thesis
          proof (cases "hits resp' = []")
            case True
            then show ?thesis
              using rules(6)[OF Got] Got yh cs r e Some by (simp add: scan_loop.simps)
          next
            case False
            have eq: "scan_loop G cfg cr first_run scroll_id resp replies c =
                 emit (evs @ ys @ ws) (scan_loop G cfg cr False s' resp' rest c')"
              using Got yh cs r e Some False by (subst scan_loop.simps) simp
            have "P False s' resp' rest c' (scan_loop G cfg cr False s' resp' rest c')"
              by (rule "1.IH"[OF Got yh[symmetric] r cs[symmetric] e Some False rules])
            then show ?thesis
              using rules(7)[OF Got _ _ Some False] yh cs r e by (simp add: eq)
          qed
        qed
      qed
    qed
  qed
qed

lemma scan_finally_outcome:
  "snd (snd (scan_finally cfg cr s out)) =
     (if cleanup_calls cfg s = [] then out
      else case cr of RaisesNow e \<Rightarrow> Raised e | Awaitable x \<Rightarrow> out)"
  by (cases s) simp_all

lemma scan_finally_not_Pending:
  "out \<noteq> Pending \<Longrightarrow> snd (snd (scan_finally cfg cr s out)) \<noteq> Pending"
  by (cases cr) (simp_all add: scan_finally_outcome)

declare scan_finally.simps [simp del]

lemma scan_loop_clear_calls:
  "clear_calls (fst (scan_loop G cfg cr fr s resp replies c)) =
     (if snd (snd (scan_loop G cfg cr fr s resp replies c)) = Pending then []
      else cleanup_calls cfg (fst (snd (scan_loop G cfg cr fr s resp replies c))))"
proof (rule scan_loop_cases [where P = "\<lambda>fr s resp replies c r.
    clear_calls (fst r) = (if snd (snd r) = Pending then [] else cleanup_calls cfg (fst (snd r)))"
    and cfg = cfg and cr = cr and G = G], goal_cases Waiting Failed Closed Error NoId Empty Continue)
  case (Waiting fr s resp replies c evs)
  then show ?case using next_response_events(3) by fastforce
next
  case (Failed fr s resp replies c evs e)
  then show ?case using next_response_events(2)[OF Failed]
    by (simp add: emit_proj clear_calls_append scan_finally_clear scan_finally_not_Pending)
next
  case (Closed fr s resp replies c evs resp' rest ys)
  then show ?case using next_response_events(1)[OF Closed(1)] yield_hits_quiet[of "hits resp'" c]
    by (simp add: emit_proj clear_calls_append scan_finally_clear scan_finally_not_Pending)
next
  case (Error fr s resp replies c evs resp' rest ys c' ws e)
  then show ?case using next_response_events(1)[OF Error(1)] yield_hits_quiet[of "hits resp'" c]
       check_shards_quiet[of G cfg s resp']
    by (simp add: emit_proj clear_calls_append scan_finally_clear scan_finally_not_Pending)
next
  case (NoId fr s resp replies c evs resp' rest ys c' ws)
  then show ?case using next_response_events(1)[OF NoId(1)] yield_hits_quiet[of "hits resp'" c]
       check_shards_quiet[of G cfg s resp']
    by (simp add: emit_proj clear_calls_append scan_finally_clear scan_finally_not_Pending)
next
  case (Empty fr s resp replies c evs resp' rest ys c' ws s')
  then show ?case using next_response_events(1)[OF Empty(1)] yield_hits_quiet[of "hits resp'" c]
       check_shards_quiet[of G cfg s resp']
    by (simp add: emit_proj clear_calls_append scan_finally_clear scan_finally_not_Pending)
next
  case (Continue fr s resp replies c evs resp' rest ys c' ws s')
  then show ?case using next_response_events(1)[OF Continue(1)] yield_hits_quiet[of "hits resp'" c]
       check_shards_quiet[of G cfg s resp']
    by (simp add: emit_proj clear_calls_append)
qed


lemma next_response_Got:
  "next_response cfg fr s resp replies = Got evs resp' rest \<Longrightarrow>
     (fr \<and> evs = [] \<and> resp' = resp \<and> rest = replies) \<or>
     (\<not> fr \<and> evs = [Scroll s (scroll cfg) (request_timeout cfg)] \<and> replies = Inr resp' # rest)"
  by (auto simp: next_response_def split: if_splits list.splits sum.splits)

lemma next_response_Failed:
  "next_response cfg fr s resp replies = Failed evs e \<Longrightarrow>
     \<not> fr \<and> evs = [Scroll s (scroll cfg) (request_timeout cfg)] \<and> (\<exists>rest. replies = Inl e # rest)"
  by (auto simp: next_response_def split: if_splits list.splits sum.splits)

lemma next_response_Waiting:
  "next_response cfg fr s resp replies = Waiting evs \<Longrightarrow>
     \<not> fr \<and> evs = [Scroll s (scroll cfg) (request_timeout cfg)] \<and> replies = []"
  by (auto simp: next_response_def split: if_splits list.splits sum.splits)



lemma scan_finally_quiet:
  "scroll_calls (fst (scan_finally cfg cr s out)) = []"
  "yielded (fst (scan_finally cfg cr s out)) = []"
  "warnings (fst (scan_finally cfg cr s out)) = []"
  by (cases s, simp_all add: scan_finally.simps)+

lemma scan_loop_scroll_ids:
  "scroll_id_of resp = Some s \<longrightarrow>
     map Some (scroll_calls (fst (scan_loop G cfg cr fr s resp replies c))) =
     map scroll_id_of (take (length (scroll_calls (fst (scan_loop G cfg cr fr s resp replies c))))
        (resp # leading_responses replies))"
proof (rule scan_loop_cases [where P = "\<lambda>fr s resp replies c r. scroll_id_of resp = Some s \<longrightarrow>
     map Some (scroll_calls (fst r)) =
     map scroll_id_of (take (length (scroll_calls (fst r))) (resp # leading_responses replies))"
    and cfg = cfg and cr = cr and G = G], goal_cases Waiting Failed Closed Error NoId Empty Continue)
  case (Waiting fr s resp replies c evs)
  then show ?case
    by (auto dest!: next_response_Waiting)
next
  case (Failed fr s resp replies c evs e)
  then show ?case
    by (auto dest!: next_response_Failed simp: emit_proj scroll_calls_append scan_finally_quiet)
next
  case (Closed fr s resp replies c evs resp' rest ys)
  then show ?case
    by (auto dest!: next_response_Got yield_hits_events simp: emit_proj scroll_calls_append
        scan_finally_quiet)
next
  case (Error fr s resp replies c evs resp' rest ys c' ws e)
  then show ?case
    by (auto dest!: next_response_Got yield_hits_events check_shards_events simp: emit_proj
        scroll_calls_append scan_finally_quiet)
next
  case (NoId fr s resp replies c evs resp' rest ys c' ws)
  then show ?case
    by (auto dest!: next_response_Got yield_hits_events check_shards_events simp: emit_proj
        scroll_calls_append scan_finally_quiet)
next
  case (Empty fr s resp replies c evs resp' rest ys c' ws s')
  then show ?case
    by (auto dest!: next_response_Got yield_hits_events check_shards_events simp: emit_proj
        scroll_calls_append scan_finally_quiet)
next
  case (Continue fr s resp replies c evs resp' rest ys c' ws s')
  then show ?case
    by (auto dest!: next_response_Got yield_hits_events check_shards_events simp: emit_proj
        scroll_calls_append scan_finally_quiet)
qed


lemma scroll_calls_map_Yield: "scroll_calls (map Yield xs) = []"
  by (induction xs) simp_all

lemma scan_loop_yielded:
  "c = Drain \<longrightarrow>
     yielded (fst (scan_loop G cfg cr fr s resp replies c)) =
     concat (map hits ((if fr then [resp] else []) @
        take (length (scroll_calls (fst (scan_loop G cfg cr fr s resp replies c))))
          (leading_responses replies)))"
proof (rule scan_loop_cases [where P = "\<lambda>fr s resp replies c r. c = Drain \<longrightarrow>
     yielded (fst r) = concat (map hits ((if fr then [resp] else []) @
        take (length (scroll_calls (fst r))) (leading_responses replies)))"
    and cfg = cfg and cr = cr and G = G], goal_cases Waiting Failed Closed Error NoId Empty Continue)
  case (Waiting fr s resp replies c evs)
  then show ?case
    by (auto dest!: next_response_Waiting simp: yield_hits_Drain yielded_map_Yield)
next
  case (Failed fr s resp replies c evs e)
  then show ?case
    by (auto dest!: next_response_Failed simp: emit_proj scroll_calls_append yielded_append
        clear_calls_append scan_finally_quiet scan_finally_clear scan_finally_outcome
        yield_hits_Drain yielded_map_Yield scroll_calls_map_Yield)
next
  case (Closed fr s resp replies c evs resp' rest ys)
  then show ?case
    by (auto dest!: next_response_Got simp: emit_proj scroll_calls_append yielded_append
        clear_calls_append scan_finally_quiet scan_finally_clear scan_finally_outcome
        yield_hits_Drain yielded_map_Yield scroll_calls_map_Yield)
next
  case (Error fr s resp replies c evs resp' rest ys c' ws e)
  then show ?case
    by (auto dest!: next_response_Got check_shards_events simp: emit_proj scroll_calls_append
        yielded_append clear_calls_append scan_finally_quiet scan_finally_clear
        scan_finally_outcome yield_hits_Drain yielded_map_Yield scroll_calls_map_Yield)
next
  case (NoId fr s resp replies c evs resp' rest ys c' ws)
  then show ?case
    by (auto dest!: next_response_Got check_shards_events simp: emit_proj scroll_calls_append
        yielded_append clear_calls_append scan_finally_quiet scan_finally_clear
        scan_finally_outcome yield_hits_Drain yielded_map_Yield scroll_calls_map_Yield)
next
  case (Empty fr s resp replies c evs resp' rest ys c' ws s')
  then show ?case
    by (auto dest!: next_response_Got check_shards_events simp: emit_proj scroll_calls_append
        yielded_append clear_calls_append scan_finally_quiet scan_finally_clear
        scan_finally_outcome yield_hits_Drain yielded_map_Yield scroll_calls_map_Yield)
next
  case (Continue fr s resp replies c evs resp' rest ys c' ws s')
  then show ?case
    by (auto dest!: next_response_Got check_shards_events simp: emit_proj scroll_calls_append
        yielded_append clear_calls_append scan_finally_quiet scan_finally_clear
        scan_finally_outcome yield_hits_Drain yielded_map_Yield scroll_calls_map_Yield)
qed

lemma yield_hits_all: "yield_hits xs c = (ys, Some c') \<Longrightarrow> yielded ys = xs"
  by (induction xs c arbitrary: ys c' rule: yield_hits.induct) (auto split: prod.splits)

lemma scan_loop_yielded_Done:
  "snd (snd (scan_loop G cfg cr fr s resp replies c)) = Done \<longrightarrow>
     yielded (fst (scan_loop G cfg cr fr s resp replies c)) =
     concat (map hits ((if fr then [resp] else []) @
        take (length (scroll_calls (fst (scan_loop G cfg cr fr s resp replies c))))
          (leading_responses replies)))"
proof (rule scan_loop_cases [where P = "\<lambda>fr s resp replies c r. snd (snd r) = Done \<longrightarrow>
     yielded (fst r) = concat (map hits ((if fr then [resp] else []) @
        take (length (scroll_calls (fst r))) (leading_responses replies)))"
    and cfg = cfg and cr = cr and G = G], goal_cases Waiting Failed Closed Error NoId Empty Continue)
  case (Waiting fr s resp replies c evs)
  then show ?case by simp
next
  case (Failed fr s resp replies c evs e)
  then show ?case
    by (auto simp: emit_proj scan_finally_outcome split: if_splits clear_reply.splits)
next
  case (Closed fr s resp replies c evs resp' rest ys)
  then show ?case
    by (auto simp: emit_proj scan_finally_outcome split: if_splits clear_reply.splits)
next
  case (Error fr s resp replies c evs resp' rest ys c' ws e)
  then show ?case
    by (auto simp: emit_proj scan_finally_outcome split: if_splits clear_reply.splits)
next
  case (NoId fr s resp replies c evs resp' rest ys c' ws)
  then show ?case
    using yield_hits_all [OF NoId(2)]
    by (auto dest!: next_response_Got yield_hits_events check_shards_events
        simp: emit_proj scroll_calls_append yielded_append scan_finally_quiet)
next
  case (Empty fr s resp replies c evs resp' rest ys c' ws s')
  then show ?case
    using yield_hits_all [OF Empty(2)]
    by (auto dest!: next_response_Got yield_hits_events check_shards_events
        simp: emit_proj scroll_calls_append yielded_append scan_finally_quiet)
next
  case (Continue fr s resp replies c evs resp' rest ys c' ws s')
  then show ?case
    using yield_hits_all [OF Continue(2)]
    by (auto dest!: next_response_Got yield_hits_events check_shards_events
        simp: emit_proj scroll_calls_append yielded_append)
qed

lemma scan_loop_Done:
  "snd (snd (scan_loop G cfg cr fr s resp replies c)) = Done \<longrightarrow>
     take (length (scroll_calls (fst (scan_loop G cfg cr fr s resp replies c)))) replies =
       map Inr (take (length (scroll_calls (fst (scan_loop G cfg cr fr s resp replies c))))
          (leading_responses replies)) \<and>
     fst (snd (scan_loop G cfg cr fr s resp replies c)) =
       scroll_id_of (last (resp # take (length (scroll_calls (fst (scan_loop G cfg cr fr s resp replies c))))
          (leading_responses replies)))"
proof (rule scan_loop_cases [where P = "\<lambda>fr s resp replies c r. snd (snd r) = Done \<longrightarrow>
     take (length (scroll_calls (fst r))) replies =
       map Inr (take (length (scroll_calls (fst r))) (leading_responses replies)) \<and>
     fst (snd r) = scroll_id_of (last (resp # take (length (scroll_calls (fst r))) (leading_responses replies)))"
    and cfg = cfg and cr = cr and G = G], goal_cases Waiting Failed Closed Error NoId Empty Continue)
  case (Waiting fr s resp replies c evs)
  then show ?case
    by (auto dest!: next_response_Waiting split: if_splits clear_reply.splits)
next
  case (Failed fr s resp replies c evs e)
  then show ?case
    by (auto dest!: next_response_Failed simp: emit_proj scroll_calls_append yielded_append
        clear_calls_append scan_finally_quiet scan_finally_clear scan_finally_outcome  split:
        if_splits clear_reply.splits)
next
  case (Closed fr s resp replies c evs resp' rest ys)
  then show ?case
    by (auto dest!: next_response_Got yield_hits_events simp: emit_proj scroll_calls_append
        yielded_append clear_calls_append scan_finally_quiet scan_finally_clear
        scan_finally_outcome  split: if_splits clear_reply.splits)
next
  case (Error fr s resp replies c evs resp' rest ys c' ws e)
  then show ?case
    by (auto dest!: next_response_Got yield_hits_events check_shards_events simp: emit_proj
        scroll_calls_append yielded_append clear_calls_append scan_finally_quiet
        scan_finally_clear scan_finally_outcome  split: if_splits clear_reply.splits)
next
  case (NoId fr s resp replies c evs resp' rest ys c' ws)
  then show ?case
    by (auto dest!: next_response_Got yield_hits_events check_shards_events simp: emit_proj
        scroll_calls_append yielded_append clear_calls_append scan_finally_quiet
        scan_finally_clear scan_finally_outcome  split: if_splits clear_reply.splits)
next
  case (Empty fr s resp replies c evs resp' rest ys c' ws s')
  then show ?case
    by (auto dest!: next_response_Got yield_hits_events check_shards_events simp: emit_proj
        scroll_calls_append yielded_append clear_calls_append scan_finally_quiet
        scan_finally_clear scan_finally_outcome  split: if_splits clear_reply.splits)
next
  case (Continue fr s resp replies c evs resp' rest ys c' ws s')
  then show ?case
    by (auto dest!: next_response_Got yield_hits_events check_shards_events simp: emit_proj
        scroll_calls_append yielded_append clear_calls_append scan_finally_quiet
        scan_finally_clear scan_finally_outcome  split: if_splits clear_reply.splits)
qed


lemma search_call_quiet [simp]:
  "yielded (search_call h b cfg # evs) = yielded evs"
  "scroll_calls (search_call h b cfg # evs) = scroll_calls evs"
  "clear_calls (search_call h b cfg # evs) = clear_calls evs"
  "warnings (search_call h b cfg # evs) = warnings evs"
  by (simp_all add: search_call_def)

lemma scan_in_loop:
  assumes "search_reply client = Inr resp0" "scroll_id_of resp0 = Some s0"
  shows "trace (scan_in G client h query cfg c) =
       search_call (fst (prepare_query h query (preserve_order cfg)))
         (snd (prepare_query h query (preserve_order cfg))) cfg #
       fst (scan_loop G cfg (clear_scroll_reply client) True s0 resp0 (scroll_replies client) c)"
    and "final_scroll_id (scan_in G client h query cfg c) =
       fst (snd (scan_loop G cfg (clear_scroll_reply client) True s0 resp0 (scroll_replies client) c))"
    and "outcome (scan_in G client h query cfg c) =
       snd (snd (scan_loop G cfg (clear_scroll_reply client) True s0 resp0 (scroll_replies client) c))"
  using assms by (simp_all add: scan_in_def Let_def split: prod.splits)

lemma scan_in_search_failed:
  assumes "search_reply client = Inl e"
  shows "trace (scan_in G client h query cfg c) =
       [search_call (fst (prepare_query h query (preserve_order cfg)))
         (snd (prepare_query h query (preserve_order cfg))) cfg]"
    and "final_scroll_id (scan_in G client h query cfg c) = None"
    and "outcome (scan_in G client h query cfg c) = Raised e"
  using assms by (simp_all add: scan_in_def Let_def split: prod.splits)

lemma scan_in_no_scroll_id:
  assumes "search_reply client = Inr resp0" "scroll_id_of resp0 = None"
  shows "trace (scan_in G client h query cfg c) =
       [search_call (fst (prepare_query h query (preserve_order cfg)))
         (snd (prepare_query h query (preserve_order cfg))) cfg]"
    and "final_scroll_id (scan_in G client h query cfg c) = None"
    and "outcome (scan_in G client h query cfg c) = Done"
  using assms by (simp_all add: scan_in_def Let_def split: prod.splits)

lemma scan_in_clear_calls:
  "clear_calls (trace (scan_in G client h query cfg c)) =
     (if outcome (scan_in G client h query cfg c) = Pending then []
      else cleanup_calls cfg (final_scroll_id (scan_in G client h query cfg c)))"
proof (cases "search_reply client")
  case (Inl e)
  then show ?thesis by (simp add: scan_in_search_failed)
next
  case (Inr resp0)
  show ?thesis
  proof (cases "scroll_id_of resp0")
    case None
    then show ?thesis using Inr by (simp add: scan_in_no_scroll_id)
  next
    case (Some s0)
    then show ?thesis
      using scan_loop_clear_calls[of G cfg "clear_scroll_reply client" True s0 resp0 "scroll_replies client" c]
      by (simp add: scan_in_loop[OF Inr Some])
  qed
qed

lemma check_shards_names_bound:
  "''logger'' \<in> set G \<Longrightarrow> ''ScanError'' \<in> set G \<Longrightarrow> shards_failed resp \<noteq> 0 \<Longrightarrow>
   check_shards G cfg s resp =
     ([Warning (shards_failed resp) (shards_total resp)],
      if raise_on_error cfg then Some (ScanError s (shards_failed resp) (shards_total resp))
      else None)"
  by (simp add: check_shards_def)

lemma check_shards_module:
  "shards_failed resp \<noteq> 0 \<Longrightarrow>
   check_shards module_globals cfg s resp = ([], Some (NameError ''logger''))"
  by (simp add: check_shards_def module_globals_def)

lemma prepare_query_no_preserve:
  "\<not> po \<Longrightarrow>
   prepare_query h query po =
     (h @ [AList.update ''sort'' (PStr ''_doc'') (case query of None \<Rightarrow> [] | Some a \<Rightarrow> h ! a)],
      Some (length h))"
  by (auto simp: prepare_query_def query_truthy_def dict_copy_def alloc_def set_sort_def
      split: option.splits)

lemma heap_after_scan_in:
  "heap_after (scan_in G client h query cfg c) = fst (prepare_query h query (preserve_order cfg))"
  by (simp add: scan_in_def Let_def split: prod.splits sum.splits option.splits)

lemma hd_trace_scan_in:
  "hd (trace (scan_in G client h query cfg c)) =
     search_call (fst (prepare_query h query (preserve_order cfg)))
       (snd (prepare_query h query (preserve_order cfg))) cfg"
  by (simp add: scan_in_def Let_def split: prod.splits sum.splits option.splits)

lemma update_key_once:
  "distinct (map fst al) \<Longrightarrow> length (filter (\<lambda>kv. fst kv = k) (AList.update k v al)) = 1"
proof (induction al)
  case Nil
  then show ?case by simp
next
  case (Cons p al)
  have "filter (\<lambda>kv. fst kv = fst p) al = []"
  proof -
    have "fst kv \<noteq> fst p" if "kv \<in> set al" for kv
      using Cons.prems that by (cases kv) (auto simp: image_iff)
    then show ?thesis by (simp add: filter_empty_conv)
  qed
  then show ?case using Cons by auto
qed

lemma scan_finally_Awaitable:
  "scan_finally cfg (Awaitable x) s out = scan_finally cfg (Awaitable y) s out"
  by (cases s) (simp_all add: scan_finally.simps)

lemma scan_loop_Awaitable:
  "scan_loop G cfg (Awaitable x) fr s resp replies c =
   scan_loop G cfg (Awaitable y) fr s resp replies c"
proof (rule scan_loop_cases [where P = "\<lambda>fr s resp replies c r.
    r = scan_loop G cfg (Awaitable y) fr s resp replies c"
    and cfg = cfg and cr = "Awaitable x" and G = G], goal_cases Waiting Failed Closed Error NoId Empty Continue)
  case (Waiting fr s resp replies c evs)
  then show ?case by (subst scan_loop.simps) simp
next
  case (Failed fr s resp replies c evs e)
  then show ?case by (subst scan_loop.simps) (simp add: scan_finally_Awaitable [of cfg x _ _ y])
next
  case (Closed fr s resp replies c evs resp' rest ys)
  then show ?case by (subst scan_loop.simps) (simp add: scan_finally_Awaitable [of cfg x _ _ y])
next
  case (Error fr s resp replies c evs resp' rest ys c' ws e)
  then show ?case by (subst scan_loop.simps) (simp add: scan_finally_Awaitable [of cfg x _ _ y])
next
  case (NoId fr s resp replies c evs resp' rest ys c' ws)
  then show ?case by (subst scan_loop.simps) (simp add: scan_finally_Awaitable [of cfg x _ _ y])
next
  case (Empty fr s resp replies c evs resp' rest ys c' ws s')
  then show ?case by (subst scan_loop.simps) (simp add: scan_finally_Awaitable [of cfg x _ _ y])
next
  case (Continue fr s resp replies c evs resp' rest ys c' ws s')
  then show ?case by (subst (2) scan_loop.simps) simp
qed

lemma scan_in_Awaitable:
  "scan_in G (client\<lparr>clear_scroll_reply := Awaitable x\<rparr>) h query cfg c =
   scan_in G (client\<lparr>clear_scroll_reply := Awaitable y\<rparr>) h query cfg c"
  by (simp add: scan_in_def Let_def scan_loop_Awaitable [of G cfg x _ _ _ _ _ y]
      split: prod.splits sum.splits option.splits)

text \<open>
  The result of \<open>client.clear_scroll(...)\<close> is never awaited: whatever the returned
  awaitable would deliver (nothing, a 404 error or any other error), the session is the
  same.
\<close>

lemma scan_ignores_awaitable:
  "scan (client\<lparr>clear_scroll_reply := Awaitable x\<rparr>) h query cfg c =
   scan (client\<lparr>clear_scroll_reply := Awaitable y\<rparr>) h query cfg c"
  unfolding scan_def by (rule scan_in_Awaitable)

lemma scan_loop_RaisesNow:
  "clear_calls (fst (scan_loop G cfg (RaisesNow e) fr s resp replies c)) \<noteq> [] \<longrightarrow>
   snd (snd (scan_loop G cfg (RaisesNow e) fr s resp replies c)) = Raised e"
proof (rule scan_loop_cases [where P = "\<lambda>fr s resp replies c r.
    clear_calls (fst r) \<noteq> [] \<longrightarrow> snd (snd r) = Raised e"
    and cfg = cfg and cr = "RaisesNow e" and G = G], goal_cases Waiting Failed Closed Error NoId Empty Continue)
  case (Waiting fr s resp replies c evs)
  then show ?case by (auto dest!: next_response_Waiting)
next
  case (Failed fr s resp replies c evs e)
  then show ?case
    by (auto dest!: next_response_Failed simp: emit_proj clear_calls_append scan_finally_clear
        scan_finally_outcome)
next
  case (Closed fr s resp replies c evs resp' rest ys)
  then show ?case
    by (auto dest!: next_response_Got yield_hits_events simp: emit_proj clear_calls_append
        scan_finally_clear scan_finally_outcome)
next
  case (Error fr s resp replies c evs resp' rest ys c' ws e)
  then show ?case
    by (auto dest!: next_response_Got yield_hits_events check_shards_events simp: emit_proj
        clear_calls_append scan_finally_clear scan_finally_outcome)
next
  case (NoId fr s resp replies c evs resp' rest ys c' ws)
  then show ?case
    by (auto dest!: next_response_Got yield_hits_events check_shards_events simp: emit_proj
        clear_calls_append scan_finally_clear scan_finally_outcome)
next
  case (Empty fr s resp replies c evs resp' rest ys c' ws s')
  then show ?case
    by (auto dest!: next_response_Got yield_hits_events check_shards_events simp: emit_proj
        clear_calls_append scan_finally_clear scan_finally_outcome)
next
  case (Continue fr s resp replies c evs resp' rest ys c' ws s')
  then show ?case
    by (auto dest!: next_response_Got yield_hits_events check_shards_events simp: emit_proj
        clear_calls_append)
qed

lemma cleanup_calls_ignore: "call \<in> set (cleanup_calls cfg s) \<Longrightarrow> snd call = [404]"
  by (cases s) (auto split: if_splits)














section \<open>The claims\<close>

subsection \<open>C1: clear-scroll on the exit paths\<close>




subsection \<open>C2: shard failures\<close>

text \<open>
  C2 at a response that reports one failed shard out of five. The module binds neither
  \<open>logger\<close> nor \<open>ScanError\<close>, so line 70 raises \<open>NameError\<close>: after the hit of the
  round has been emitted the session ends with that exception, whether
  \<open>raise_on_error\<close> is set or not, and no warning is emitted. (Lemma
  \<open>check_shards_names_bound\<close> shows that with both names bound the lines do what C2
  says.)
\<close>

theorem scan_shard_failure_raises_NameError:
  "outcome (scan (session (page (Some ''s1'') [''A''] 1) []) [] None default_config Drain) =
     Raised (NameError ''logger'') \<and>
   outcome (scan (session (page (Some ''s1'') [''A''] 1) [])
      [] None (default_config\<lparr>raise_on_error := False\<rparr>) Drain) = Raised (NameError ''logger'') \<and>
   yielded (trace (scan (session (page (Some ''s1'') [''A''] 1) [])
      [] None default_config Drain)) = [''A''] \<and>
   warnings (trace (scan (session (page (Some ''s1'') [''A''] 1) [])
      [] None default_config Drain)) = []"
  by (intro conjI; code_simp)

subsection \<open>C3: the scenario with a last response without identifier\<close>



subsection \<open>C4: no scroll identifier in the initial response\<close>

text \<open>
  C4: when the response of the initial search carries no scroll identifier, nothing is
  emitted, no clear-scroll call (and no scroll call) is made, and the generator returns
  normally.
\<close>

theorem scan_no_scroll_id_empty:
  assumes "search_reply client = Inr resp0" and "scroll_id_of resp0 = None"
  shows "yielded (trace (scan client h query cfg c)) = [] \<and>
         clear_calls (trace (scan client h query cfg c)) = [] \<and>
         scroll_calls (trace (scan client h query cfg c)) = [] \<and>
         outcome (scan client h query cfg c) = Done"
  using assms by (simp add: scan_def scan_in_no_scroll_id)

text \<open>The theorem at an initial response without identifier and without hits.\<close>

theorem scan_no_scroll_id_empty_witness:
  "search_reply (session (page None [] 0) [] :: string client) = Inr (page None [] 0) \<and>
   scroll_id_of (page None [] 0 :: string response) = None \<and>
   yielded (trace (scan (session (page None [] 0) [] :: string client) [] None default_config Drain)) = [] \<and>
   clear_calls (trace (scan (session (page None [] 0) [] :: string client) [] None default_config Drain)) = [] \<and>
   outcome (scan (session (page None [] 0) [] :: string client) [] None default_config Drain) = Done"
proof -
  have 1: "search_reply (session (page None [] 0) [] :: string client) = Inr (page None [] 0)"
    by (simp add: session_def)
  have 2: "scroll_id_of (page None [] 0 :: string response) = None"
    by (simp add: page_def)
  show ?thesis
    using scan_no_scroll_id_empty [OF 1 2, of "[]" None default_config Drain] 1 2 by simp
qed

subsection \<open>C9: hits of an initial response without identifier\<close>

text \<open>
  C9: when the response of the initial search contains hits but no scroll identifier,
  none of these hits is emitted: the emitted sequence is empty, and the generator
  returns normally, without warning or exception.
\<close>

theorem scan_discards_initial_hits:
  assumes "search_reply client = Inr resp0" and "scroll_id_of resp0 = None"
    and "hits resp0 \<noteq> []"
  shows "yielded (trace (scan client h query cfg c)) = [] \<and>
         (\<forall>x \<in> set (hits resp0). Yield x \<notin> set (trace (scan client h query cfg c))) \<and>
         warnings (trace (scan client h query cfg c)) = [] \<and>
         outcome (scan client h query cfg c) = Done"
  using assms by (simp add: scan_def scan_in_no_scroll_id search_call_def)

text \<open>The theorem at an initial response with the hits \<open>A\<close> and \<open>B\<close> and no identifier.\<close>

theorem scan_discards_initial_hits_witness:
  "search_reply (session (page None [''A'', ''B''] 0) []) = Inr (page None [''A'', ''B''] 0) \<and>
   scroll_id_of (page None [''A'', ''B''] 0) = None \<and>
   hits (page None [''A'', ''B''] 0) \<noteq> [] \<and>
   yielded (trace (scan (session (page None [''A'', ''B''] 0) []) [] None default_config Drain)) = [] \<and>
   Yield ''A'' \<notin> set (trace (scan (session (page None [''A'', ''B''] 0) []) [] None default_config Drain)) \<and>
   outcome (scan (session (page None [''A'', ''B''] 0) []) [] None default_config Drain) = Done"
proof -
  have 1: "search_reply (session (page None [''A'', ''B''] 0) []) = Inr (page None [''A'', ''B''] 0)"
    by (simp add: session_def)
  have 2: "scroll_id_of (page None [''A'', ''B''] 0) = None"
    by (simp add: page_def)
  have 3: "hits (page None [''A'', ''B''] 0) \<noteq> []"
    by (simp add: page_def)
  have 4: "''A'' \<in> set (hits (page None [''A'', ''B''] 0))"
    by (simp add: page_def)
  show ?thesis
    using scan_discards_initial_hits [OF 1 2 3, of "[]" None default_config Drain] 1 2 3 4 by simp
qed

subsection \<open>C5: the hits of a successful scan\<close>

text \<open>
  C5: when the initial response carries a scroll identifier and the session ends
  normally, every scroll call made was answered by a response, and the hits emitted are
  the hits of the initial response followed by the hits of these scroll responses, in
  arrival order.
\<close>

theorem scan_yields_all_hits:
  assumes "search_reply client = Inr resp0" and "scroll_id_of resp0 = Some s0"
    and "outcome (scan client h query cfg c) = Done"
  shows "yielded (trace (scan client h query cfg c)) =
           concat (map hits (resp0 #
             take (length (scroll_calls (trace (scan client h query cfg c))))
               (leading_responses (scroll_replies client)))) \<and>
         take (length (scroll_calls (trace (scan client h query cfg c)))) (scroll_replies client) =
           map Inr (take (length (scroll_calls (trace (scan client h query cfg c))))
             (leading_responses (scroll_replies client)))"
  using assms(3)
    scan_loop_yielded_Done [of module_globals cfg "clear_scroll_reply client" True s0 resp0
      "scroll_replies client" c]
    scan_loop_Done [of module_globals cfg "clear_scroll_reply client" True s0 resp0
      "scroll_replies client" c]
  by (simp add: scan_def scan_in_loop [OF assms(1,2)])

text \<open>
  The theorem at a scan of three pages, \<open>[A, B]\<close>, \<open>[C]\<close> and \<open>[]\<close>: two scroll calls,
  and the hits emitted are \<open>[A, B, C]\<close>.
\<close>

theorem scan_yields_all_hits_witness:
  "search_reply (session (page (Some ''s1'') [''A'', ''B''] 0)
       [page (Some ''s2'') [''C''] 0, page (Some ''s3'') [] 0]) =
     Inr (page (Some ''s1'') [''A'', ''B''] 0) \<and>
   scroll_id_of (page (Some ''s1'') [''A'', ''B''] 0) = Some ''s1'' \<and>
   outcome (scan (session (page (Some ''s1'') [''A'', ''B''] 0)
       [page (Some ''s2'') [''C''] 0, page (Some ''s3'') [] 0]) [] None default_config Drain) = Done \<and>
   yielded (trace (scan (session (page (Some ''s1'') [''A'', ''B''] 0)
       [page (Some ''s2'') [''C''] 0, page (Some ''s3'') [] 0]) [] None default_config Drain)) =
     [''A'', ''B'', ''C'']"
proof -
  let ?cl = "session (page (Some ''s1'') [''A'', ''B''] 0)
       [page (Some ''s2'') [''C''] 0, page (Some ''s3'') [] 0] :: string client"
  have 1: "search_reply ?cl = Inr (page (Some ''s1'') [''A'', ''B''] 0)"
    by (simp add: session_def)
  have 2: "scroll_id_of (page (Some ''s1'') [''A'', ''B''] 0 :: string response) = Some ''s1''"
    by (simp add: page_def)
  have 3: "outcome (scan ?cl [] None default_config Drain) = Done"
    by code_simp
  have 4: "scroll_calls (trace (scan ?cl [] None default_config Drain)) = [''s1'', ''s2'']"
    by code_simp
  have 5: "scroll_replies ?cl = [Inr (page (Some ''s2'') [''C''] 0), Inr (page (Some ''s3'') [] 0)]"
    by (simp add: session_def)
  have "yielded (trace (scan ?cl [] None default_config Drain)) = [''A'', ''B'', ''C'']"
    using scan_yields_all_hits [OF 1 2 3] unfolding 4 5 by (simp add: page_def)
  then show ?thesis using 1 2 3 by simp
qed

subsection \<open>C8: one scroll identifier at a time\<close>

text \<open>
  C8: the scroll call number \<open>i\<close> of a session passes the scroll identifier of the
  response received just before it: the initial response for the first call, the
  response to scroll call \<open>i - 1\<close> otherwise. The session keeps its identifier in the one
  variable \<open>scroll_id\<close>: at most one clear-scroll call is made, and it names exactly one
  identifier, the one that variable holds at the end.
\<close>

theorem scan_scroll_uses_previous_id:
  assumes "search_reply client = Inr resp0"
  shows "map Some (scroll_calls (trace (scan client h query cfg c))) =
           map scroll_id_of
             (take (length (scroll_calls (trace (scan client h query cfg c))))
               (resp0 # leading_responses (scroll_replies client))) \<and>
         length (clear_calls (trace (scan client h query cfg c))) \<le> 1 \<and>
         (\<forall>call \<in> set (clear_calls (trace (scan client h query cfg c))).
            \<exists>s. fst call = [s] \<and> final_scroll_id (scan client h query cfg c) = Some s)"
proof -
  have a: "map Some (scroll_calls (trace (scan client h query cfg c))) =
           map scroll_id_of
             (take (length (scroll_calls (trace (scan client h query cfg c))))
               (resp0 # leading_responses (scroll_replies client)))"
  proof (cases "scroll_id_of resp0")
    case None
    then show ?thesis using assms by (simp add: scan_def scan_in_no_scroll_id)
  next
    case (Some s0)
    then show ?thesis
      using scan_loop_scroll_ids [of resp0 s0 module_globals cfg "clear_scroll_reply client" True
          "scroll_replies client" c]
      by (simp add: scan_def scan_in_loop [OF assms Some])
  qed
  have b: "length (clear_calls (trace (scan client h query cfg c))) \<le> 1 \<and>
         (\<forall>call \<in> set (clear_calls (trace (scan client h query cfg c))).
            \<exists>s. fst call = [s] \<and> final_scroll_id (scan client h query cfg c) = Some s)"
    using scan_in_clear_calls [of module_globals client h query cfg c]
    by (cases "final_scroll_id (scan_in module_globals client h query cfg c)")
       (simp_all add: scan_def)
  show ?thesis using a b by simp
qed

text \<open>
  The theorem at the scan of three pages with the identifiers \<open>s1\<close>, \<open>s2\<close>, \<open>s3\<close>: the
  scroll calls pass \<open>s1\<close> and \<open>s2\<close>, the one clear-scroll call names \<open>s3\<close>.
\<close>

theorem scan_scroll_uses_previous_id_witness:
  "search_reply (session (page (Some ''s1'') [''A'', ''B''] 0)
       [page (Some ''s2'') [''C''] 0, page (Some ''s3'') [] 0]) =
     Inr (page (Some ''s1'') [''A'', ''B''] 0) \<and>
   scroll_calls (trace (scan (session (page (Some ''s1'') [''A'', ''B''] 0)
       [page (Some ''s2'') [''C''] 0, page (Some ''s3'') [] 0]) [] None default_config Drain)) =
     [''s1'', ''s2''] \<and>
   clear_calls (trace (scan (session (page (Some ''s1'') [''A'', ''B''] 0)
       [page (Some ''s2'') [''C''] 0, page (Some ''s3'') [] 0]) [] None default_config Drain)) =
     [([''s3''], [404])] \<and>
   final_scroll_id (scan (session (page (Some ''s1'') [''A'', ''B''] 0)
       [page (Some ''s2'') [''C''] 0, page (Some ''s3'') [] 0]) [] None default_config Drain) =
     Some ''s3''"
proof -
  let ?cl = "session (page (Some ''s1'') [''A'', ''B''] 0)
       [page (Some ''s2'') [''C''] 0, page (Some ''s3'') [] 0] :: string client"
  have 1: "search_reply ?cl = Inr (page (Some ''s1'') [''A'', ''B''] 0)"
    by (simp add: session_def)
  have 4: "length (scroll_calls (trace (scan ?cl [] None default_config Drain))) = 2"
    by code_simp
  have 5: "scroll_replies ?cl = [Inr (page (Some ''s2'') [''C''] 0), Inr (page (Some ''s3'') [] 0)]"
    by (simp add: session_def)
  have 6: "clear_calls (trace (scan ?cl [] None default_config Drain)) = [([''s3''], [404])]"
    by code_simp
  have 7: "final_scroll_id (scan ?cl [] None default_config Drain) = Some ''s3''"
    by code_simp
  have "map Some (scroll_calls (trace (scan ?cl [] None default_config Drain))) =
      [Some ''s1'', Some ''s2'']"
    using scan_scroll_uses_previous_id [OF 1, of "[]" None default_config Drain]
    unfolding 4 5 by (simp add: page_def)
  then have "scroll_calls (trace (scan ?cl [] None default_config Drain)) = [''s1'', ''s2'']"
    by auto
  then show ?thesis using 1 6 7 by simp
qed

subsection \<open>C6: the sort directive and the caller's query\<close>

text \<open>
  C6: with \<open>preserve_order\<close> false, no dictionary that exists when \<open>scan\<close> is called is
  changed, the caller's query in particular; exactly one new dictionary is allocated,
  holding the entries of the caller's query (none when no query or an empty one is
  supplied) with \<open>sort\<close> set to \<open>_doc\<close>, and it is the body of the search call. When the
  keys of the caller's query are distinct, as the keys of a dictionary are, the key
  \<open>sort\<close> occurs exactly once in the body.
\<close>

theorem scan_sort_injected_into_copy:
  assumes "\<not> preserve_order cfg"
  shows "(\<forall>a < length h. heap_after (scan client h query cfg c) ! a = h ! a) \<and>
         length (heap_after (scan client h query cfg c)) = Suc (length h) \<and>
         heap_after (scan client h query cfg c) ! length h =
           AList.update ''sort'' (PStr ''_doc'') (case query of None \<Rightarrow> [] | Some a \<Rightarrow> h ! a) \<and>
         hd (trace (scan client h query cfg c)) =
           Search (Some (AList.update ''sort'' (PStr ''_doc'')
                     (case query of None \<Rightarrow> [] | Some a \<Rightarrow> h ! a)))
             (scroll cfg) (size_opt cfg) (request_timeout cfg) (kwargs cfg) \<and>
         (distinct (map fst (case query of None \<Rightarrow> [] | Some a \<Rightarrow> h ! a)) \<longrightarrow>
            length (filter (\<lambda>kv. fst kv = ''sort'')
              (AList.update ''sort'' (PStr ''_doc'')
                 (case query of None \<Rightarrow> [] | Some a \<Rightarrow> h ! a))) = 1)"
  using assms
  by (simp add: scan_def heap_after_scan_in hd_trace_scan_in prepare_query_no_preserve
      search_call_def nth_append update_key_once)

text \<open>
  The theorem at a caller's query that already has a \<open>sort\<close> entry: the caller's
  dictionary at address 0 keeps it, the copy at address 1 is sent with \<open>_doc\<close>.
\<close>

theorem scan_sort_injected_into_copy_witness:
  "\<not> preserve_order default_config \<and>
   heap_after (scan (session (page None [] 0) [] :: string client)
      ([(''query'', PRef 7), (''sort'', PStr ''title'')] # Nil) (Some 0) default_config Drain) ! 0 =
     [(''query'', PRef 7), (''sort'', PStr ''title'')] \<and>
   heap_after (scan (session (page None [] 0) [] :: string client)
      ([(''query'', PRef 7), (''sort'', PStr ''title'')] # Nil) (Some 0) default_config Drain) ! 1 =
     [(''query'', PRef 7), (''sort'', PStr ''_doc'')] \<and>
   hd (trace (scan (session (page None [] 0) [] :: string client)
      ([(''query'', PRef 7), (''sort'', PStr ''title'')] # Nil) (Some 0) default_config Drain)) =
     Search (Some [(''query'', PRef 7), (''sort'', PStr ''_doc'')]) ''5m'' 1000 None [] \<and>
   length (filter (\<lambda>kv. fst kv = ''sort'') [(''query'', PRef 7), (''sort'', PStr ''_doc'')]) = 1"
proof -
  have 1: "\<not> preserve_order default_config" by (simp add: default_config_def)
  show ?thesis
    using scan_sort_injected_into_copy [OF 1, of "[(''query'', PRef 7), (''sort'', PStr ''title'')] # Nil"
        "session (page None [] 0) [] :: string client" "Some 0" Drain] 1
    by (simp add: default_config_def)
qed

subsection \<open>C7: errors of the cleanup call\<close>

text \<open>
  C7 as stated fails: nothing around the call of line 87 catches an exception. When the
  scroll call fails with status 503 and the \<open>clear_scroll\<close> call itself raises an error
  with status 500, the session ends with the error of the cleanup, not with the original
  one.
\<close>

theorem scan_cleanup_masks_counterexample:
  "outcome (scan \<lparr>search_reply = Inr (page (Some ''s1'') [''A''] 0),
        scroll_replies = [Inl (ClientError 503)],
        clear_scroll_reply = Awaitable (Inr ())\<rparr> [] None default_config Drain) =
     Raised (ClientError 503) \<and>
   outcome (scan \<lparr>search_reply = Inr (page (Some ''s1'') [''A''] 0),
        scroll_replies = [Inl (ClientError 503)],
        clear_scroll_reply = RaisesNow (ClientError 500)\<rparr> [] None default_config Drain) =
     Raised (ClientError 500)"
  by (intro conjI; code_simp)

text \<open>
  C7, as the code has it. Every clear-scroll call passes \<open>ignore=(404,)\<close>, which leaves
  the tolerance of "not found" to the client. Nothing else is suppressed: when the call
  \<open>client.clear_scroll(...)\<close> raises, its exception leaves the \<open>finally\<close> block and is
  the outcome of the session, in place of the original one.
\<close>

theorem scan_cleanup_errors:
  "(\<forall>call \<in> set (clear_calls (trace (scan client h query cfg c))). snd call = [404]) \<and>
   (clear_scroll_reply client = RaisesNow e \<and>
    clear_calls (trace (scan client h query cfg c)) \<noteq> [] \<longrightarrow>
      outcome (scan client h query cfg c) = Raised e)"
proof (intro conjI ballI impI)
  fix call
  assume "call \<in> set (clear_calls (trace (scan client h query cfg c)))"
  then show "snd call = [404]"
    using scan_in_clear_calls [of module_globals client h query cfg c]
    by (auto simp: scan_def dest: cleanup_calls_ignore split: if_splits)
next
  assume a: "clear_scroll_reply client = RaisesNow e \<and>
    clear_calls (trace (scan client h query cfg c)) \<noteq> []"
  show "outcome (scan client h query cfg c) = Raised e"
  proof (cases "search_reply client")
    case (Inl err)
    then show ?thesis using a by (simp add: scan_def scan_in_search_failed)
  next
    case (Inr resp0)
    show ?thesis
    proof (cases "scroll_id_of resp0")
      case None
      then show ?thesis using a Inr by (simp add: scan_def scan_in_no_scroll_id)
    next
      case (Some s0)
      then show ?thesis
        using a scan_loop_RaisesNow [of module_globals cfg e True s0 resp0 "scroll_replies client" c]
        by (auto simp: scan_def scan_in_loop [OF Inr Some])
    qed
  qed
qed

text \<open>
  The theorem at a session that ends normally on an empty page with identifier \<open>s2\<close>
  and whose \<open>clear_scroll\<close> call raises: the call names \<open>s2\<close> with \<open>ignore=(404,)\<close>, and
  the session ends with the exception of the call.
\<close>

theorem scan_cleanup_errors_witness:
  "clear_scroll_reply \<lparr>search_reply = Inr (page (Some ''s1'') [''A''] 0),
        scroll_replies = [Inr (page (Some ''s2'') [] 0)],
        clear_scroll_reply = RaisesNow (ClientError 500)\<rparr> = RaisesNow (ClientError 500) \<and>
   clear_calls (trace (scan \<lparr>search_reply = Inr (page (Some ''s1'') [''A''] 0),
        scroll_replies = [Inr (page (Some ''s2'') [] 0)],
        clear_scroll_reply = RaisesNow (ClientError 500)\<rparr> [] None default_config Drain)) =
     [([''s2''], [404])] \<and>
   outcome (scan \<lparr>search_reply = Inr (page (Some ''s1'') [''A''] 0),
        scroll_replies = [Inr (page (Some ''s2'') [] 0)],
        clear_scroll_reply = RaisesNow (ClientError 500)\<rparr> [] None default_config Drain) =
     Raised (ClientError 500)"
proof -
  let ?cl = "\<lparr>search_reply = Inr (page (Some ''s1'') [''A''] 0),
        scroll_replies = [Inr (page (Some ''s2'') [] 0)],
        clear_scroll_reply = RaisesNow (ClientError 500)\<rparr> :: string client"
  have 1: "clear_scroll_reply ?cl = RaisesNow (ClientError 500)" by simp
  have 2: "clear_calls (trace (scan ?cl [] None default_config Drain)) = [([''s2''], [404])]"
    by code_simp
  show ?thesis
    using scan_cleanup_errors [of ?cl "[]" None default_config Drain "ClientError 500"] 1
    unfolding 2 by simp
qed

end
